theory Spec2Isabelle
  imports
    Main
    "HOL-Library.Multiset"
    "HOL-Library.Char_ord"
    "HOL-Library.List_Lexorder"
begin

section \<open>The VIPeR data manager (data\_manager/viper.py)\<close>

text \<open>
  The module is Python 2. Its values are modelled dynamically where the code reads a
  document back from disk (the content of the file is whatever was stored there), and
  with typed records where the code builds the splits itself.

  Strings are byte strings, integers are unbounded. Floats, booleans and \<open>None\<close> do
  not occur in anything the module writes and are left out of the value type.
\<close>

subsection \<open>Python values and exceptions\<close>

datatype pyval =
    PInt int
  | PStr string
  | PList "pyval list"
  | PTuple "pyval list"
  | PDict "(string \<times> pyval) list"

text \<open>
  A \<open>PDict\<close> is an association list read front to back: the first binding of a key is
  the dictionary's binding of it.

  \<open>SplitIdError received upper\<close> is the \<open>ValueError\<close> of line 49, with the two values
  formatted into its message ``split\_id exceeds range, received \{\}, but expected
  between 0 and \{\}''. \<open>FormatError\<close> is the \<open>ValueError\<close> that \<open>'{:5d}'.format\<close> raises
  on a value that is not an integer. \<open>AssertionError\<close> and \<open>RuntimeError\<close> carry their
  message.
\<close>

datatype error =
    AssertionError string
  | SplitIdError int int
  | FormatError
  | RuntimeError string
  | IndexError
  | KeyError
  | TypeError
  | IOError string

definition and_then :: "error + 'a \<Rightarrow> ('a \<Rightarrow> error + 'b) \<Rightarrow> error + 'b" where
  "and_then r f = (case r of Inl e \<Rightarrow> Inl e | Inr x \<Rightarrow> f x)"

text \<open>\<open>len(v)\<close>\<close>

fun py_len :: "pyval \<Rightarrow> error + nat" where
  "py_len (PInt i) = Inl TypeError"
| "py_len (PStr s) = Inr (length s)"
| "py_len (PList xs) = Inr (length xs)"
| "py_len (PTuple xs) = Inr (length xs)"
| "py_len (PDict kvs) = Inr (length (remdups (map fst kvs)))"

text \<open>
  \<open>xs[i]\<close> on a list, tuple or string: an index below zero is taken from the end, and an
  index outside the sequence raises.
\<close>

definition seq_index :: "'a list \<Rightarrow> int \<Rightarrow> error + 'a" where
  "seq_index xs i =
     (if i < 0 then
        (if - i \<le> int (length xs) then Inr (xs ! nat (int (length xs) + i)) else Inl IndexError)
      else if i < int (length xs) then Inr (xs ! nat i)
      else Inl IndexError)"

text \<open>\<open>v[i]\<close> for an integer \<open>i\<close>. The keys of a dictionary read from JSON are strings.\<close>

fun py_getitem_int :: "pyval \<Rightarrow> int \<Rightarrow> error + pyval" where
  "py_getitem_int (PInt n) i = Inl TypeError"
| "py_getitem_int (PStr s) i = and_then (seq_index s i) (\<lambda>c. Inr (PStr [c]))"
| "py_getitem_int (PList xs) i = seq_index xs i"
| "py_getitem_int (PTuple xs) i = seq_index xs i"
| "py_getitem_int (PDict kvs) i = Inl KeyError"

text \<open>\<open>v[k]\<close> for a string \<open>k\<close>.\<close>

fun py_getitem_str :: "pyval \<Rightarrow> string \<Rightarrow> error + pyval" where
  "py_getitem_str (PDict kvs) k = (case map_of kvs k of None \<Rightarrow> Inl KeyError | Some v \<Rightarrow> Inr v)"
| "py_getitem_str (PInt n) k = Inl TypeError"
| "py_getitem_str (PStr s) k = Inl TypeError"
| "py_getitem_str (PList xs) k = Inl TypeError"
| "py_getitem_str (PTuple xs) k = Inl TypeError"

text \<open>Iterating over a value, as \<open>for item in v\<close> and \<open>tuple(v)\<close> do.\<close>

fun py_iter :: "pyval \<Rightarrow> error + pyval list" where
  "py_iter (PInt n) = Inl TypeError"
| "py_iter (PStr s) = Inr (map (\<lambda>c. PStr [c]) s)"
| "py_iter (PList xs) = Inr xs"
| "py_iter (PTuple xs) = Inr xs"
| "py_iter (PDict kvs) = Inr (map PStr (remdups (map fst kvs)))"

definition py_tuple :: "pyval \<Rightarrow> error + pyval" where
  "py_tuple item = and_then (py_iter item) (\<lambda>xs. Inr (PTuple xs))"

text \<open>\<open>a + b\<close>\<close>

fun py_add :: "pyval \<Rightarrow> pyval \<Rightarrow> error + pyval" where
  "py_add (PInt a) (PInt b) = Inr (PInt (a + b))"
| "py_add (PStr a) (PStr b) = Inr (PStr (a @ b))"
| "py_add (PList a) (PList b) = Inr (PList (a @ b))"
| "py_add (PTuple a) (PTuple b) = Inr (PTuple (a @ b))"
| "py_add a b = Inl TypeError"

text \<open>\<open>'{:5d}'.format(v)\<close>, for what it raises only.\<close>

fun format_d :: "pyval \<Rightarrow> error + unit" where
  "format_d (PInt n) = Inr ()"
| "format_d v = Inl FormatError"

subsection \<open>Paths and the file system\<close>

text \<open>\<open>os.path.join\<close> on a POSIX system.\<close>

definition join2 :: "string \<Rightarrow> string \<Rightarrow> string" where
  "join2 path b =
     (if b \<noteq> [] \<and> hd b = CHR ''/'' then b
      else if path = [] \<or> last path = CHR ''/'' then path @ b
      else path @ ''/'' @ b)"

definition osp_join :: "string \<Rightarrow> string list \<Rightarrow> string" where
  "osp_join a p = foldl join2 a p"

text \<open>The document stored in a JSON file.\<close>

datatype json =
    JInt int
  | JStr string
  | JArr "json list"
  | JObj "(string \<times> json) list"

text \<open>
  The part of the machine the module touches: the directories that exist, the JSON files
  and their content, what \<open>glob.glob\<close> returns for a pattern, and the state of numpy's
  global random generator.
\<close>

record 'g world =
  dirs :: "string set"
  files :: "string \<rightharpoonup> json"
  globs :: "string \<Rightarrow> string list"
  rng :: 'g

definition osp_exists :: "'g world \<Rightarrow> string \<Rightarrow> bool" where
  "osp_exists w p \<longleftrightarrow> p \<in> dirs w \<or> files w p \<noteq> None"

subsection \<open>utils.iotools\<close>

text \<open>
  Modelled from the spec: \<open>json.dump\<close> as \<open>write_json\<close> of utils/iotools.py uses it,
  which is not among the sources. The spec: ``record tuples serialize as 3-element
  ordered sequences'', in a ``nested mapping/sequence document''. A tuple is written as
  an array, like a list.
\<close>

primrec json_dump :: "pyval \<Rightarrow> json" where
  "json_dump (PInt n) = JInt n"
| "json_dump (PStr s) = JStr s"
| "json_dump (PList xs) = JArr (map json_dump xs)"
| "json_dump (PTuple xs) = JArr (map json_dump xs)"
| "json_dump (PDict kvs) = JObj (map (map_prod id json_dump) kvs)"

text \<open>
  Modelled from the spec: \<open>json.load\<close> as \<open>read_json\<close> of utils/iotools.py uses it.
  An array is read as a list, never as a tuple.
\<close>

primrec json_load :: "json \<Rightarrow> pyval" where
  "json_load (JInt n) = PInt n"
| "json_load (JStr s) = PStr s"
| "json_load (JArr xs) = PList (map json_load xs)"
| "json_load (JObj kvs) = PDict (map (map_prod id json_load) kvs)"

text \<open>
  Modelled from the spec: \<open>write_json(obj, fpath)\<close> of utils/iotools.py, ``serialize a
  value to a path''.
\<close>

definition write_json :: "pyval \<Rightarrow> string \<Rightarrow> 'g world \<Rightarrow> 'g world" where
  "write_json obj fpath w = w\<lparr>files := (files w)(fpath \<mapsto> json_dump obj)\<rparr>"

text \<open>
  Modelled from the spec: \<open>read_json(fpath)\<close> of utils/iotools.py, ``deserialize a value
  from a path''. Opening a path that is not a file raises.
\<close>

definition read_json :: "string \<Rightarrow> 'g world \<Rightarrow> error + pyval" where
  "read_json fpath w =
     (case files w fpath of None \<Rightarrow> Inl (IOError fpath) | Some doc \<Rightarrow> Inr (json_load doc))"

text \<open>
  Modelled from the spec: \<open>mkdir_if_missing(directory)\<close> of utils/iotools.py, ``ensure a
  directory exists''.
\<close>

definition mkdir_if_missing :: "string \<Rightarrow> 'g world \<Rightarrow> 'g world" where
  "mkdir_if_missing directory w = w\<lparr>dirs := insert directory (dirs w)\<rparr>"

subsection \<open>Splits\<close>

type_synonym img = "string \<times> nat \<times> nat"

text \<open>The dictionary built at lines 154--158, with its six fixed keys.\<close>

record split =
  train :: "img list"
  query :: "img list"
  gallery :: "img list"
  num_train_pids :: nat
  num_query_pids :: nat
  num_gallery_pids :: nat

text \<open>
  The loops of lines 141--145 and 148--152 over \<open>enumerate(idxs)\<close>, appending to the
  list built so far. Reading a camera list out of range raises \<open>IndexError\<close>.
\<close>

fun append_records :: "string list \<Rightarrow> string list \<Rightarrow> (nat \<times> nat) list \<Rightarrow> img list \<Rightarrow> error + img list" where
  "append_records cam_a_imgs cam_b_imgs [] acc = Inr acc"
| "append_records cam_a_imgs cam_b_imgs ((pid, idx) # rest) acc =
     (if \<not> idx < length cam_a_imgs then Inl IndexError
      else if \<not> idx < length cam_b_imgs then Inl IndexError
      else append_records cam_a_imgs cam_b_imgs rest
             (acc @ [(cam_a_imgs ! idx, pid, 0)] @ [(cam_b_imgs ! idx, pid, 1)]))"

text \<open>The body of the loop over the trials, lines 136--158, from the shuffled \<open>order\<close> on.\<close>

definition make_split :: "string list \<Rightarrow> string list \<Rightarrow> nat \<Rightarrow> nat \<Rightarrow> nat list \<Rightarrow> error + split" where
  "make_split cam_a_imgs cam_b_imgs num_pids num_train order =
     (let train_idxs = take num_train order;
          test_idxs = drop num_train order
      in if set train_idxs \<inter> set test_idxs \<noteq> {}
         then Inl (AssertionError ''Error: train and test overlap'')
         else
           and_then (append_records cam_a_imgs cam_b_imgs (enumerate 0 train_idxs) []) (\<lambda>train.
           and_then (append_records cam_a_imgs cam_b_imgs (enumerate 0 test_idxs) []) (\<lambda>test.
           Inr \<lparr>train = train, query = test, gallery = test,
                num_train_pids = num_train,
                num_query_pids = num_pids - num_train,
                num_gallery_pids = num_pids - num_train\<rparr>)))"

text \<open>
  \<open>np.random.shuffle\<close> is numpy's; it is a parameter here, a function from the state of
  the generator and the array to the shuffled array and the next state.
\<close>

type_synonym 'g shuffle = "'g \<Rightarrow> nat list \<Rightarrow> nat list \<times> 'g"

text \<open>The loop \<open>for _ in range(k)\<close> of line 133, appending to \<open>splits\<close>.\<close>

fun trials :: "'g shuffle \<Rightarrow> string list \<Rightarrow> string list \<Rightarrow> nat \<Rightarrow> nat \<Rightarrow> nat \<Rightarrow> 'g \<Rightarrow> split list
    \<Rightarrow> error + (split list \<times> 'g)" where
  "trials shuffle cam_a_imgs cam_b_imgs num_pids num_train 0 g splits = Inr (splits, g)"
| "trials shuffle cam_a_imgs cam_b_imgs num_pids num_train (Suc k) g splits =
     (case shuffle g [0..<num_pids] of (order, g') \<Rightarrow>
        and_then (make_split cam_a_imgs cam_b_imgs num_pids num_train order) (\<lambda>split.
        trials shuffle cam_a_imgs cam_b_imgs num_pids num_train k g' (splits @ [split])))"

text \<open>Lines 127--159: from the two sorted listings to the ten splits.\<close>

definition create_splits :: "'g shuffle \<Rightarrow> string list \<Rightarrow> string list \<Rightarrow> 'g \<Rightarrow> error + (split list \<times> 'g)" where
  "create_splits shuffle cam_a_imgs cam_b_imgs g =
     (if length cam_a_imgs \<noteq> length cam_b_imgs then Inl (AssertionError [])
      else
        let num_pids = length cam_a_imgs;
            num_train = num_pids div 2
        in trials shuffle cam_a_imgs cam_b_imgs num_pids num_train 10 g [])"

text \<open>The Python value of a split: a dictionary whose records are tuples.\<close>

definition img_py :: "img \<Rightarrow> pyval" where
  "img_py r = (case r of (path, pid, camid) \<Rightarrow> PTuple [PStr path, PInt (int pid), PInt (int camid)])"

definition split_py :: "split \<Rightarrow> pyval" where
  "split_py s = PDict
     [(''train'', PList (map img_py (train s))),
      (''query'', PList (map img_py (query s))),
      (''gallery'', PList (map img_py (gallery s))),
      (''num_train_pids'', PInt (int (num_train_pids s))),
      (''num_query_pids'', PInt (int (num_query_pids s))),
      (''num_gallery_pids'', PInt (int (num_gallery_pids s)))]"

definition splits_py :: "split list \<Rightarrow> pyval" where
  "splits_py splits = PList (map split_py splits)"

subsection \<open>The class VIPeR\<close>

record paths =
  dataset_dir :: string
  cam_a_path :: string
  cam_b_path :: string
  split_path :: string

text \<open>Lines 37--41.\<close>

definition init_paths :: "string \<Rightarrow> paths" where
  "init_paths root =
     (let dd = osp_join root [''viper'']
      in \<lparr>dataset_dir = dd,
          cam_a_path = osp_join dd [''VIPeR'', ''cam_a''],
          cam_b_path = osp_join dd [''VIPeR'', ''cam_b''],
          split_path = osp_join dd [''splits.json'']\<rparr>)"

text \<open>
  \<open>_download_data\<close>. Fetching the archive and unpacking it is the work of urllib and
  zipfile: the parameter \<open>retrieve\<close>, which may fail.
\<close>

definition download_data :: "(paths \<Rightarrow> 'g world \<Rightarrow> error + 'g world) \<Rightarrow> paths \<Rightarrow> 'g world \<Rightarrow> error + 'g world" where
  "download_data retrieve self w =
     (if osp_exists w (dataset_dir self) then Inr w
      else retrieve self (mkdir_if_missing (dataset_dir self) w))"

text \<open>\<open>_check_before_run\<close>\<close>

definition check_before_run :: "paths \<Rightarrow> 'g world \<Rightarrow> error + unit" where
  "check_before_run self w =
     (if \<not> osp_exists w (dataset_dir self) then Inl (RuntimeError (dataset_dir self))
      else if \<not> osp_exists w (cam_a_path self) then Inl (RuntimeError (cam_a_path self))
      else if \<not> osp_exists w (cam_b_path self) then Inl (RuntimeError (cam_b_path self))
      else Inr ())"

text \<open>\<open>_prepare_split\<close>\<close>

definition prepare_split :: "'g shuffle \<Rightarrow> paths \<Rightarrow> 'g world \<Rightarrow> error + 'g world" where
  "prepare_split shuffle self w =
     (if \<not> osp_exists w (split_path self) then
        let cam_a_imgs = sort (globs w (osp_join (cam_a_path self) [''*.bmp'']));
            cam_b_imgs = sort (globs w (osp_join (cam_b_path self) [''*.bmp'']))
        in and_then (create_splits shuffle cam_a_imgs cam_b_imgs (rng w)) (\<lambda>(splits, g').
             Inr (write_json (splits_py splits) (split_path self) (w\<lparr>rng := g'\<rparr>)))
      else Inr w)"

text \<open>What \<open>__init__\<close> leaves on the object besides the paths.\<close>

record dataset =
  self_train :: "pyval list"
  self_query :: "pyval list"
  self_gallery :: "pyval list"
  self_num_train_pids :: pyval
  self_num_query_pids :: pyval
  self_num_gallery_pids :: pyval

text \<open>\<open>[tuple(item) for item in v]\<close>\<close>

fun tuple_each :: "pyval list \<Rightarrow> error + pyval list" where
  "tuple_each [] = Inr []"
| "tuple_each (item # rest) =
     and_then (py_tuple item) (\<lambda>t.
     and_then (tuple_each rest) (\<lambda>ts. Inr (t # ts)))"

definition tuples :: "pyval \<Rightarrow> error + pyval list" where
  "tuples v = and_then (py_iter v) tuple_each"

text \<open>The table printed at lines 71--82, for what it raises.\<close>

definition print_statistics :: "pyval \<Rightarrow> pyval \<Rightarrow> pyval \<Rightarrow> pyval \<Rightarrow> error + unit" where
  "print_statistics n_train n_query n_gallery n_total =
     and_then (format_d n_train) (\<lambda>_.
     and_then (format_d n_query) (\<lambda>_.
     and_then (format_d n_gallery) (\<lambda>_.
     format_d n_total)))"

text \<open>Lines 48--90 of \<open>__init__\<close>: from the document read back to the dataset.\<close>

definition assemble :: "pyval \<Rightarrow> int \<Rightarrow> bool \<Rightarrow> error + dataset" where
  "assemble splits split_id verbose =
     and_then (py_len splits) (\<lambda>n.
     if split_id \<ge> int n then Inl (SplitIdError split_id (int n - 1))
     else
       and_then (py_getitem_int splits split_id) (\<lambda>split.
       and_then (py_getitem_str split ''train'') (\<lambda>train.
       and_then (py_getitem_str split ''query'') (\<lambda>query.
       and_then (py_getitem_str split ''gallery'') (\<lambda>gallery.
       and_then (tuples train) (\<lambda>train.
       and_then (tuples query) (\<lambda>query.
       and_then (tuples gallery) (\<lambda>gallery.
       and_then (py_getitem_str split ''num_train_pids'') (\<lambda>num_train_pids.
       and_then (py_getitem_str split ''num_query_pids'') (\<lambda>num_query_pids.
       and_then (py_getitem_str split ''num_gallery_pids'') (\<lambda>num_gallery_pids.
       and_then (py_add num_train_pids num_query_pids) (\<lambda>num_total_pids.
       and_then (if verbose
                 then print_statistics num_train_pids num_query_pids num_gallery_pids num_total_pids
                 else Inr ()) (\<lambda>_.
       Inr \<lparr>self_train = train, self_query = query, self_gallery = gallery,
            self_num_train_pids = num_train_pids,
            self_num_query_pids = num_query_pids,
            self_num_gallery_pids = num_gallery_pids\<rparr>)))))))))))))"

text \<open>
  \<open>__init__\<close> with \<open>use_lmdb\<close> at its default \<open>False\<close>. It returns the dataset and the
  world it leaves behind.
\<close>

definition init :: "'g shuffle \<Rightarrow> (paths \<Rightarrow> 'g world \<Rightarrow> error + 'g world) \<Rightarrow> string \<Rightarrow> int \<Rightarrow> bool
    \<Rightarrow> 'g world \<Rightarrow> error + (dataset \<times> 'g world)" where
  "init shuffle retrieve root split_id verbose w =
     (let self = init_paths root
      in and_then (download_data retrieve self w) (\<lambda>w1.
         and_then (check_before_run self w1) (\<lambda>_.
         and_then (prepare_split shuffle self w1) (\<lambda>w2.
         and_then (read_json (split_path self) w2) (\<lambda>splits.
         and_then (assemble splits split_id verbose) (\<lambda>d.
         Inr (d, w2)))))))"

subsection \<open>Vocabulary of the properties\<close>

text \<open>The contract of \<open>np.random.shuffle\<close>: the result is a permutation of the argument.\<close>

definition permutes_input :: "'g shuffle \<Rightarrow> bool" where
  "permutes_input shuffle \<longleftrightarrow> (\<forall>g xs. mset (fst (shuffle g xs)) = mset xs)"

text \<open>The records that a list of (label, raw index) pairs stands for.\<close>

definition records_of :: "string list \<Rightarrow> string list \<Rightarrow> (nat \<times> nat) list \<Rightarrow> img list" where
  "records_of a b ps = concat (map (\<lambda>(pid, idx). [(a ! idx, pid, 0), (b ! idx, pid, 1)]) ps)"

text \<open>The split that a permutation \<open>order\<close> of the raw indices gives.\<close>

definition split_of :: "string list \<Rightarrow> string list \<Rightarrow> nat \<Rightarrow> nat \<Rightarrow> nat list \<Rightarrow> split" where
  "split_of a b n k order =
     \<lparr>train = records_of a b (enumerate 0 (take k order)),
      query = records_of a b (enumerate 0 (drop k order)),
      gallery = records_of a b (enumerate 0 (drop k order)),
      num_train_pids = k,
      num_query_pids = n - k,
      num_gallery_pids = n - k\<rparr>"

text \<open>
  The permutations that \<open>k\<close> successive trials draw from the generator in state \<open>g\<close>, and
  the state they leave.
\<close>

fun draws :: "'g shuffle \<Rightarrow> nat \<Rightarrow> nat \<Rightarrow> 'g \<Rightarrow> nat list list" where
  "draws shuffle n 0 g = []"
| "draws shuffle n (Suc k) g = fst (shuffle g [0..<n]) # draws shuffle n k (snd (shuffle g [0..<n]))"

fun rng_after :: "'g shuffle \<Rightarrow> nat \<Rightarrow> nat \<Rightarrow> 'g \<Rightarrow> 'g" where
  "rng_after shuffle n 0 g = g"
| "rng_after shuffle n (Suc k) g = rng_after shuffle n k (snd (shuffle g [0..<n]))"

text \<open>
  A generator to run the code on: its state counts the calls, and the call in state \<open>g\<close>
  rotates the array by \<open>g + 1\<close>, so successive calls give different results.
\<close>

definition rotate_shuffle :: "nat shuffle" where
  "rotate_shuffle g xs = (rotate (Suc g) xs, Suc g)"

text \<open>
  What the values of a split look like once they have been through the file: the records
  come back as lists.
\<close>

definition img_loaded :: "img \<Rightarrow> pyval" where
  "img_loaded r = (case r of (path, pid, camid) \<Rightarrow> PList [PStr path, PInt (int pid), PInt (int camid)])"

definition split_loaded :: "split \<Rightarrow> pyval" where
  "split_loaded s = PDict
     [(''train'', PList (map img_loaded (train s))),
      (''query'', PList (map img_loaded (query s))),
      (''gallery'', PList (map img_loaded (gallery s))),
      (''num_train_pids'', PInt (int (num_train_pids s))),
      (''num_query_pids'', PInt (int (num_query_pids s))),
      (''num_gallery_pids'', PInt (int (num_gallery_pids s)))]"

text \<open>The dataset that \<open>__init__\<close> is expected to expose for a split.\<close>

definition dataset_of :: "split \<Rightarrow> dataset" where
  "dataset_of s =
     \<lparr>self_train = map img_py (train s),
      self_query = map img_py (query s),
      self_gallery = map img_py (gallery s),
      self_num_train_pids = PInt (int (num_train_pids s)),
      self_num_query_pids = PInt (int (num_query_pids s)),
      self_num_gallery_pids = PInt (int (num_gallery_pids s))\<rparr>"

text \<open>
  A machine to run the code on: the dataset directories are there, each camera has three
  images (listed out of order), no split file has been written, and the network is down.
\<close>

definition example_world :: "nat world" where
  "example_world =
     \<lparr>dirs = {''data/viper'', ''data/viper/VIPeR/cam_a'', ''data/viper/VIPeR/cam_b''},
      files = Map.empty,
      globs = (\<lambda>p. if p = ''data/viper/VIPeR/cam_a/*.bmp'' then [''a2.bmp'', ''a0.bmp'', ''a1.bmp'']
                  else if p = ''data/viper/VIPeR/cam_b/*.bmp'' then [''b0.bmp'', ''b2.bmp'', ''b1.bmp'']
                  else []),
      rng = 0\<rparr>"

definition no_network :: "paths \<Rightarrow> nat world \<Rightarrow> error + nat world" where
  "no_network self w = Inl (IOError ''http://users.soe.ucsc.edu/~manduchi/VIPeR.v1.0.zip'')"

text \<open>A split as the builder writes it for two identities, one for training and one for testing.\<close>

definition example_split :: "nat \<Rightarrow> split" where
  "example_split k =
     \<lparr>train = [(''a0.bmp'', 0, 0), (''b0.bmp'', 0, 1)],
      query = [(''a1.bmp'', 0, 0), (''b1.bmp'', 0, 1)],
      gallery = [(''a1.bmp'', 0, 0), (''b1.bmp'', 0, 1)],
      num_train_pids = k, num_query_pids = 1, num_gallery_pids = 1\<rparr>"

section \<open>Basic facts\<close>

lemma and_then_Inl [simp]: "and_then (Inl e) f = Inl e"
  by (simp add: and_then_def)

lemma and_then_Inr [simp]: "and_then (Inr x) f = f x"
  by (simp add: and_then_def)

lemma records_of_Nil [simp]: "records_of a b [] = []"
  by (simp add: records_of_def)

lemma records_of_Cons [simp]:
  "records_of a b ((pid, idx) # ps) = (a ! idx, pid, 0) # (b ! idx, pid, 1) # records_of a b ps"
  by (simp add: records_of_def)

lemma append_records_closed:
  "\<forall>p \<in> set ps. snd p < length a \<and> snd p < length b \<Longrightarrow>
   append_records a b ps acc = Inr (acc @ records_of a b ps)"
proof (induction ps arbitrary: acc)
  case Nil
  show ?case by simp
next
  case (Cons p ps)
  obtain pid idx where p: "p = (pid, idx)" by (cases p)
  from Cons.prems p have i: "idx < length a" "idx < length b" by simp_all
  have r: "\<forall>q \<in> set ps. snd q < length a \<and> snd q < length b"
    using Cons.prems by simp
  have "append_records a b (p # ps) acc =
        append_records a b ps (acc @ [(a ! idx, pid, 0)] @ [(b ! idx, pid, 1)])"
    using i by (simp add: p)
  also have "\<dots> = Inr ((acc @ [(a ! idx, pid, 0)] @ [(b ! idx, pid, 1)]) @ records_of a b ps)"
    by (rule Cons.IH [OF r])
  also have "\<dots> = Inr (acc @ records_of a b (p # ps))"
    by (simp add: p)
  finally show ?case .
qed

lemma perm_upt_facts:
  assumes "mset order = mset [0..<n]"
  shows "distinct order" and "set order = {0..<n}" and "length order = n"
proof -
  show "distinct order"
    using mset_eq_imp_distinct_iff [OF assms] by simp
  show "set order = {0..<n}"
    using mset_eq_setD [OF assms] by simp
  show "length order = n"
    using mset_eq_length [OF assms] by simp
qed

lemma take_drop_disjoint:
  assumes "distinct xs"
  shows "set (take k xs) \<inter> set (drop k xs) = {}"
proof -
  have "distinct (take k xs @ drop k xs)" using assms by simp
  then show ?thesis by (simp only: distinct_append)
qed

lemma snd_enumerate_bound:
  assumes "set xs \<subseteq> {0..<n}"
  shows "\<forall>p \<in> set (enumerate m xs). snd p < n"
proof
  fix p assume p: "p \<in> set (enumerate m xs)"
  obtain i x where px: "p = (i, x)" by (cases p)
  from p px have "(i, x) \<in> set (zip [m..<m + length xs] xs)"
    by (simp add: enumerate_eq_zip)
  then have "x \<in> set xs" by (rule set_zip_rightD)
  then show "snd p < n" using assms px by auto
qed

lemma make_split_closed:
  assumes "mset order = mset [0..<n]" and "length a = n" and "length b = n"
  shows "make_split a b n k order = Inr (split_of a b n k order)"
proof -
  have d: "set (take k order) \<inter> set (drop k order) = {}"
    using perm_upt_facts(1) [OF assms(1)] by (rule take_drop_disjoint)
  have s: "set order = {0..<n}" by (rule perm_upt_facts(2) [OF assms(1)])
  have "set (take k order) \<subseteq> set order" by (rule set_take_subset)
  then have st: "set (take k order) \<subseteq> {0..<n}" by (simp only: s)
  have "set (drop k order) \<subseteq> set order" by (rule set_drop_subset)
  then have sd: "set (drop k order) \<subseteq> {0..<n}" by (simp only: s)
  have t: "\<forall>p \<in> set (enumerate 0 (take k order)). snd p < length a \<and> snd p < length b"
    using snd_enumerate_bound [OF st, of 0] by (simp only: assms(2,3) simp_thms)
  have u: "\<forall>p \<in> set (enumerate 0 (drop k order)). snd p < length a \<and> snd p < length b"
    using snd_enumerate_bound [OF sd, of 0] by (simp only: assms(2,3) simp_thms)
  have tr: "append_records a b (enumerate 0 (take k order)) [] =
            Inr (records_of a b (enumerate 0 (take k order)))"
    using append_records_closed [OF t, of "[]"] by simp
  have te: "append_records a b (enumerate 0 (drop k order)) [] =
            Inr (records_of a b (enumerate 0 (drop k order)))"
    using append_records_closed [OF u, of "[]"] by simp
  show ?thesis
    unfolding make_split_def Let_def split_of_def
    by (simp only: d tr te and_then_Inr simp_thms if_False)
qed

lemma length_draws [simp]: "length (draws shuffle n k g) = k"
  by (induction k arbitrary: g) simp_all

lemma draws_perm:
  assumes "permutes_input shuffle"
  shows "order \<in> set (draws shuffle n k g) \<Longrightarrow> mset order = mset [0..<n]"
proof (induction k arbitrary: g)
  case 0
  then show ?case by simp
next
  case (Suc k)
  have h: "mset (fst (shuffle g [0..<n])) = mset [0..<n]"
    using assms unfolding permutes_input_def by blast
  from Suc.prems have "order = fst (shuffle g [0..<n]) \<or>
      order \<in> set (draws shuffle n k (snd (shuffle g [0..<n])))"
    by simp
  then show ?case
  proof
    assume "order = fst (shuffle g [0..<n])"
    then show ?thesis using h by simp
  next
    assume "order \<in> set (draws shuffle n k (snd (shuffle g [0..<n])))"
    then show ?thesis by (rule Suc.IH)
  qed
qed

lemma trials_closed:
  assumes "permutes_input shuffle" and "length a = n" and "length b = n"
  shows "trials shuffle a b n m k g acc =
         Inr (acc @ map (split_of a b n m) (draws shuffle n k g), rng_after shuffle n k g)"
proof (induction k arbitrary: g acc)
  case 0
  show ?case by simp
next
  case (Suc k)
  have "mset (fst (shuffle g [0..<n])) = mset [0..<n]"
    using assms(1) unfolding permutes_input_def by blast
  then have "make_split a b n m (fst (shuffle g [0..<n])) = Inr (split_of a b n m (fst (shuffle g [0..<n])))"
    using assms(2,3) by (rule make_split_closed)
  then show ?case
    using Suc.IH by (simp add: case_prod_beta)
qed

lemma create_splits_closed:
  assumes "permutes_input shuffle" and "length a = length b"
  shows "create_splits shuffle a b g =
         Inr (map (split_of a b (length a) (length a div 2)) (draws shuffle (length a) 10 g),
              rng_after shuffle (length a) 10 g)"
  unfolding create_splits_def Let_def
  using trials_closed [OF assms(1) refl, of b a] assms(2) by simp

lemma mset_rotate1: "mset (rotate1 xs) = mset xs"
  by (cases xs) simp_all

lemma mset_rotate: "mset (rotate k xs) = mset xs"
  by (induction k) (simp_all add: mset_rotate1)

lemma permutes_rotate_shuffle: "permutes_input rotate_shuffle"
  unfolding permutes_input_def rotate_shuffle_def by (simp only: fst_conv mset_rotate simp_thms)

lemma make_split_fields:
  assumes "make_split a b n m order = Inr s"
  shows "num_train_pids s = m" and "num_query_pids s = n - m" and "num_gallery_pids s = n - m"
    and "query s = gallery s"
proof -
  let ?tr = "append_records a b (enumerate 0 (take m order)) []"
  let ?te = "append_records a b (enumerate 0 (drop m order)) []"
  have "\<exists>train test. s = \<lparr>train = train, query = test, gallery = test, num_train_pids = m,
            num_query_pids = n - m, num_gallery_pids = n - m\<rparr>"
  proof (cases "set (take m order) \<inter> set (drop m order) \<noteq> {}")
    case True
    then show ?thesis using assms by (simp add: make_split_def Let_def)
  next
    case False
    show ?thesis
    proof (cases ?tr)
      case (Inl e)
      then show ?thesis using assms False by (simp add: make_split_def Let_def)
    next
      case tr: (Inr train)
      show ?thesis
      proof (cases ?te)
        case (Inl e)
        then show ?thesis using assms False tr by (simp add: make_split_def Let_def)
      next
        case (Inr test)
        then have "s = \<lparr>train = train, query = test, gallery = test, num_train_pids = m,
            num_query_pids = n - m, num_gallery_pids = n - m\<rparr>"
          using assms False tr by (simp add: make_split_def Let_def)
        then show ?thesis by blast
      qed
    qed
  qed
  then obtain train test where s: "s = \<lparr>train = train, query = test, gallery = test,
      num_train_pids = m, num_query_pids = n - m, num_gallery_pids = n - m\<rparr>" by blast
  show "num_train_pids s = m" by (simp add: s)
  show "num_query_pids s = n - m" by (simp add: s)
  show "num_gallery_pids s = n - m" by (simp add: s)
  show "query s = gallery s" by (simp add: s)
qed

lemma trials_invariant:
  assumes step: "\<And>order s. make_split a b n m order = Inr s \<Longrightarrow> P s"
    and run: "trials shuffle a b n m k g acc = Inr (splits, g')"
    and start: "\<forall>s \<in> set acc. P s"
  shows "\<forall>s \<in> set splits. P s"
  using run start
proof (induction k arbitrary: g acc)
  case 0
  then show ?case by simp
next
  case (Suc k)
  let ?order = "fst (shuffle g [0..<n])"
  let ?g = "snd (shuffle g [0..<n])"
  show ?case
  proof (cases "make_split a b n m ?order")
    case (Inl e)
    then show ?thesis using Suc.prems(1) by (simp add: case_prod_beta)
  next
    case (Inr s)
    then have run: "trials shuffle a b n m k ?g (acc @ [s]) = Inr (splits, g')"
      using Suc.prems(1) by (simp add: case_prod_beta)
    have "P s" using Inr by (rule step)
    then have "\<forall>x \<in> set (acc @ [s]). P x" using Suc.prems(2) by simp
    then show ?thesis by (rule Suc.IH [OF run])
  qed
qed

lemma create_splits_invariant:
  assumes step: "\<And>order s. make_split a b (length a) (length a div 2) order = Inr s \<Longrightarrow> P s"
    and run: "create_splits shuffle a b g = Inr (splits, g')"
    and mem: "s \<in> set splits"
  shows "P s"
proof -
  have t: "trials shuffle a b (length a) (length a div 2) 10 g [] = Inr (splits, g')"
    using run by (simp add: create_splits_def Let_def split: if_splits)
  have e: "\<forall>s \<in> set []. P s" by simp
  have "\<forall>s \<in> set splits. P s"
    using step t e by (rule trials_invariant)
  then show ?thesis using mem by simp
qed

lemma length_records_of: "length (records_of a b ps) = 2 * length ps"
  by (induction ps) (simp_all add: records_of_def split_beta)

lemma enumerate_nth: "enumerate 0 xs = map (\<lambda>i. (i, xs ! i)) [0..<length xs]"
proof -
  have "enumerate 0 (map ((!) xs) [0..<length xs]) = map (\<lambda>i. (i, xs ! i)) [0..<length xs]"
    by (rule enumerate_map_upt)
  then show ?thesis by (simp only: map_nth)
qed

lemma records_of_enumerate:
  "records_of a b (enumerate 0 xs) =
   concat (map (\<lambda>pid. [(a ! (xs ! pid), pid, 0), (b ! (xs ! pid), pid, 1)]) [0..<length xs])"
  by (simp add: records_of_def enumerate_nth [of xs] comp_def)

lemma split_of_by_position:
  assumes "length order = n" and "m \<le> n"
  shows "train (split_of a b n m order) =
           concat (map (\<lambda>pid. [(a ! (order ! pid), pid, 0), (b ! (order ! pid), pid, 1)]) [0..<m])"
    and "query (split_of a b n m order) =
           concat (map (\<lambda>pid. [(a ! (order ! (m + pid)), pid, 0), (b ! (order ! (m + pid)), pid, 1)])
                    [0..<n - m])"
proof -
  have lt: "length (take m order) = m" using assms by simp
  have ld: "length (drop m order) = n - m" using assms by simp
  have "train (split_of a b n m order) =
        concat (map (\<lambda>pid. [(a ! (take m order ! pid), pid, 0), (b ! (take m order ! pid), pid, 1)]) [0..<m])"
    using assms by (simp add: split_of_def records_of_enumerate min_absorb2)
  also have "map (\<lambda>pid. [(a ! (take m order ! pid), pid, 0), (b ! (take m order ! pid), pid, 1)]) [0..<m] =
             map (\<lambda>pid. [(a ! (order ! pid), pid, 0), (b ! (order ! pid), pid, 1)]) [0..<m]"
    by (rule map_cong) simp_all
  finally show "train (split_of a b n m order) =
           concat (map (\<lambda>pid. [(a ! (order ! pid), pid, 0), (b ! (order ! pid), pid, 1)]) [0..<m])" .
  have "query (split_of a b n m order) =
        concat (map (\<lambda>pid. [(a ! (drop m order ! pid), pid, 0), (b ! (drop m order ! pid), pid, 1)])
                 [0..<n - m])"
    using assms by (simp add: split_of_def records_of_enumerate)
  also have "map (\<lambda>pid. [(a ! (drop m order ! pid), pid, 0), (b ! (drop m order ! pid), pid, 1)]) [0..<n - m] =
             map (\<lambda>pid. [(a ! (order ! (m + pid)), pid, 0), (b ! (order ! (m + pid)), pid, 1)]) [0..<n - m]"
    using assms by (intro map_cong refl) simp
  finally show "query (split_of a b n m order) =
           concat (map (\<lambda>pid. [(a ! (order ! (m + pid)), pid, 0), (b ! (order ! (m + pid)), pid, 1)])
                    [0..<n - m])" .
qed

lemma split_of_partition:
  assumes "mset order = mset [0..<n]"
  shows "\<exists>train_idxs test_idxs.
           set train_idxs \<inter> set test_idxs = {} \<and>
           set train_idxs \<union> set test_idxs = {0..<n} \<and>
           distinct (train_idxs @ test_idxs) \<and>
           train (split_of a b n m order) =
             concat (map (\<lambda>(pid, idx). [(a ! idx, pid, 0), (b ! idx, pid, 1)]) (enumerate 0 train_idxs)) \<and>
           query (split_of a b n m order) =
             concat (map (\<lambda>(pid, idx). [(a ! idx, pid, 0), (b ! idx, pid, 1)]) (enumerate 0 test_idxs)) \<and>
           length (train (split_of a b n m order)) = 2 * length train_idxs \<and>
           length (query (split_of a b n m order)) = 2 * length test_idxs"
proof -
  have d: "distinct order" by (rule perm_upt_facts(1) [OF assms])
  have s: "set order = {0..<n}" by (rule perm_upt_facts(2) [OF assms])
  have 1: "set (take m order) \<inter> set (drop m order) = {}" using d by (rule take_drop_disjoint)
  have "set (take m order) \<union> set (drop m order) = set (take m order @ drop m order)"
    by (simp only: set_append)
  then have 2: "set (take m order) \<union> set (drop m order) = {0..<n}"
    by (simp only: append_take_drop_id s)
  have 3: "distinct (take m order @ drop m order)" using d by (simp only: append_take_drop_id)
  have 4: "train (split_of a b n m order) =
             concat (map (\<lambda>(pid, idx). [(a ! idx, pid, 0), (b ! idx, pid, 1)]) (enumerate 0 (take m order)))"
    by (simp add: split_of_def records_of_def)
  have 5: "query (split_of a b n m order) =
             concat (map (\<lambda>(pid, idx). [(a ! idx, pid, 0), (b ! idx, pid, 1)]) (enumerate 0 (drop m order)))"
    by (simp add: split_of_def records_of_def)
  have 6: "length (train (split_of a b n m order)) = 2 * length (take m order)"
    by (simp add: split_of_def length_records_of)
  have 7: "length (query (split_of a b n m order)) = 2 * length (drop m order)"
    by (simp add: split_of_def length_records_of)
  from 1 2 3 4 5 6 7 show ?thesis by blast
qed

section \<open>Facts about the split store and the assembly\<close>

lemma load_dump_img: "json_load (json_dump (img_py r)) = img_loaded r"
  by (cases r) (simp add: img_py_def img_loaded_def)

lemma load_dump_imgs: "map json_load (map json_dump (map img_py rs)) = map img_loaded rs"
  by (induction rs) (simp_all add: load_dump_img)

lemma load_dump_split: "json_load (json_dump (split_py s)) = split_loaded s"
  by (simp add: split_py_def split_loaded_def load_dump_img)

lemma load_dump_splits: "json_load (json_dump (splits_py ss)) = PList (map split_loaded ss)"
proof -
  have "map json_load (map json_dump (map split_py ss)) = map split_loaded ss"
    by (induction ss) (simp_all add: load_dump_split)
  then show ?thesis by (simp add: splits_py_def)
qed

lemma tuple_each_loaded: "tuple_each (map img_loaded rs) = Inr (map img_py rs)"
proof (induction rs)
  case Nil
  show ?case by simp
next
  case (Cons r rs)
  have "py_tuple (img_loaded r) = Inr (img_py r)"
    by (cases r) (simp add: py_tuple_def img_loaded_def img_py_def)
  then show ?case using Cons.IH by simp
qed

lemma tuples_loaded: "tuples (PList (map img_loaded rs)) = Inr (map img_py rs)"
  by (simp add: tuples_def tuple_each_loaded)

lemma seq_index_map:
  "seq_index xs i = Inr x \<Longrightarrow> seq_index (map f xs) i = Inr (f x)"
  by (auto simp: seq_index_def split: if_splits)

lemma assemble_split_loaded:
  assumes "py_len splits = Inr n" and "split_id < int n"
    and "py_getitem_int splits split_id = Inr (split_loaded s)"
  shows "assemble splits split_id verbose = Inr (dataset_of s)"
proof -
  have k1: "py_getitem_str (split_loaded s) ''train'' = Inr (PList (map img_loaded (train s)))"
    by (simp add: split_loaded_def)
  have k2: "py_getitem_str (split_loaded s) ''query'' = Inr (PList (map img_loaded (query s)))"
    by (simp add: split_loaded_def)
  have k3: "py_getitem_str (split_loaded s) ''gallery'' = Inr (PList (map img_loaded (gallery s)))"
    by (simp add: split_loaded_def)
  have k4: "py_getitem_str (split_loaded s) ''num_train_pids'' = Inr (PInt (int (num_train_pids s)))"
    by (simp add: split_loaded_def)
  have k5: "py_getitem_str (split_loaded s) ''num_query_pids'' = Inr (PInt (int (num_query_pids s)))"
    by (simp add: split_loaded_def)
  have k6: "py_getitem_str (split_loaded s) ''num_gallery_pids'' = Inr (PInt (int (num_gallery_pids s)))"
    by (simp add: split_loaded_def)
  have g: "\<not> int n \<le> split_id" using assms(2) by simp
  show ?thesis
    unfolding assemble_def
    by (simp only: assms(1,3) g k1 k2 k3 k4 k5 k6 tuples_loaded and_then_Inr if_False
        py_add.simps format_d.simps print_statistics_def if_cancel dataset_of_def)
qed

lemma assemble_loaded:
  assumes "seq_index ss split_id = Inr s" and "split_id < int (length ss)"
  shows "assemble (json_load (json_dump (splits_py ss))) split_id verbose = Inr (dataset_of s)"
proof -
  have l: "py_len (PList (map split_loaded ss)) = Inr (length ss)" by simp
  have i: "py_getitem_int (PList (map split_loaded ss)) split_id = Inr (split_loaded s)"
    using assms(1) by (simp add: seq_index_map)
  show ?thesis unfolding load_dump_splits using l assms(2) i by (rule assemble_split_loaded)
qed

lemma and_then_eq_Inr:
  "and_then r f = Inr y \<longleftrightarrow> (\<exists>x. r = Inr x \<and> f x = Inr y)"
  by (cases r) (simp_all add: and_then_def)

lemma osp_exists_write_json:
  "osp_exists (write_json obj q (w\<lparr>rng := g\<rparr>)) p \<longleftrightarrow> osp_exists w p \<or> p = q"
  by (auto simp: osp_exists_def write_json_def)

lemma prepare_split_existing:
  "osp_exists w (split_path self) \<Longrightarrow> prepare_split shuffle self w = Inr w"
  by (simp add: prepare_split_def)

lemma prepare_split_keeps:
  assumes "prepare_split shuffle self w = Inr w'" and "osp_exists w p"
  shows "osp_exists w' p"
proof (cases "osp_exists w (split_path self)")
  case True
  then have "w' = w" using assms(1) by (simp add: prepare_split_def)
  then show ?thesis using assms(2) by simp
next
  case False
  let ?r = "create_splits shuffle (sort (globs w (osp_join (cam_a_path self) [''*.bmp''])))
              (sort (globs w (osp_join (cam_b_path self) [''*.bmp'']))) (rng w)"
  from assms(1) False obtain x where x: "?r = Inr x"
    and w': "(case x of (splits, g') \<Rightarrow>
               Inr (write_json (splits_py splits) (split_path self) (w\<lparr>rng := g'\<rparr>))) = Inr w'"
    by (auto simp: prepare_split_def Let_def and_then_eq_Inr)
  obtain splits g' where "x = (splits, g')" by (cases x)
  with w' have "w' = write_json (splits_py splits) (split_path self) (w\<lparr>rng := g'\<rparr>)" by simp
  then show ?thesis using assms(2) by (simp only: osp_exists_write_json simp_thms)
qed

lemma prepare_split_creates:
  assumes "permutes_input shuffle" and "\<not> osp_exists w (split_path self)"
    and "length (globs w (osp_join (cam_a_path self) [''*.bmp''])) =
         length (globs w (osp_join (cam_b_path self) [''*.bmp'']))"
    and "cam_a_imgs = sort (globs w (osp_join (cam_a_path self) [''*.bmp'']))"
    and "cam_b_imgs = sort (globs w (osp_join (cam_b_path self) [''*.bmp'']))"
    and "n = length cam_a_imgs"
  shows "prepare_split shuffle self w =
         Inr (write_json (splits_py (map (split_of cam_a_imgs cam_b_imgs n (n div 2))
                                       (draws shuffle n 10 (rng w))))
                (split_path self) (w\<lparr>rng := rng_after shuffle n 10 (rng w)\<rparr>))"
proof -
  have "length cam_a_imgs = length cam_b_imgs" using assms(3) by (simp add: assms(4,5))
  with assms(1) have "create_splits shuffle cam_a_imgs cam_b_imgs (rng w) =
      Inr (map (split_of cam_a_imgs cam_b_imgs n (n div 2)) (draws shuffle n 10 (rng w)),
           rng_after shuffle n 10 (rng w))"
    unfolding assms(6) by (rule create_splits_closed)
  then show ?thesis
    using assms(2) unfolding prepare_split_def Let_def assms(4,5) [symmetric] by simp
qed

lemma check_before_run_ok:
  "check_before_run self w = Inr u \<longleftrightarrow>
   osp_exists w (dataset_dir self) \<and> osp_exists w (cam_a_path self) \<and> osp_exists w (cam_b_path self)"
  by (simp add: check_before_run_def)

lemma read_json_ok:
  "read_json p w = Inr v \<longleftrightarrow> (\<exists>doc. files w p = Some doc \<and> v = json_load doc)"
  by (auto simp: read_json_def split: option.splits)

lemma init_again:
  assumes "init shuffle retrieve root split_id verbose w = Inr (d, w')"
  shows "init shuffle2 retrieve2 root split_id verbose w' = Inr (d, w')"
proof -
  let ?self = "init_paths root"
  from assms obtain w1 u splits where
    dl: "download_data retrieve ?self w = Inr w1" and
    ck: "check_before_run ?self w1 = Inr u" and
    pr: "prepare_split shuffle ?self w1 = Inr w'" and
    rd: "read_json (split_path ?self) w' = Inr splits" and
    asm: "assemble splits split_id verbose = Inr d"
    unfolding init_def Let_def and_then_eq_Inr by blast
  from ck have e1: "osp_exists w1 (dataset_dir ?self)" "osp_exists w1 (cam_a_path ?self)"
      "osp_exists w1 (cam_b_path ?self)"
    by (simp_all only: check_before_run_ok)
  have f1: "osp_exists w' (dataset_dir ?self)" using pr e1(1) by (rule prepare_split_keeps)
  have f2: "osp_exists w' (cam_a_path ?self)" using pr e1(2) by (rule prepare_split_keeps)
  have f3: "osp_exists w' (cam_b_path ?self)" using pr e1(3) by (rule prepare_split_keeps)
  from rd have "files w' (split_path ?self) \<noteq> None" by (auto simp only: read_json_ok)
  then have f4: "osp_exists w' (split_path ?self)" by (simp add: osp_exists_def)
  have dl2: "download_data retrieve2 ?self w' = Inr w'" using f1 by (simp add: download_data_def)
  have ck2: "check_before_run ?self w' = Inr ()" using f1 f2 f3 by (simp only: check_before_run_ok)
  have pr2: "prepare_split shuffle2 ?self w' = Inr w'" using f4 by (rule prepare_split_existing)
  show ?thesis
    unfolding init_def Let_def by (simp only: dl2 ck2 pr2 rd asm and_then_Inr)
qed

lemma init_paths_data:
  "init_paths ''data'' =
     \<lparr>dataset_dir = ''data/viper'',
      cam_a_path = ''data/viper/VIPeR/cam_a'',
      cam_b_path = ''data/viper/VIPeR/cam_b'',
      split_path = ''data/viper/splits.json''\<rparr>"
  by (simp add: init_paths_def osp_join_def join2_def)

lemma seq_index_nonneg:
  "0 \<le> i \<Longrightarrow> i < int (length xs) \<Longrightarrow> seq_index xs i = Inr (xs ! nat i)"
  by (simp add: seq_index_def)

lemma seq_index_negative:
  "i < 0 \<Longrightarrow> - int (length xs) \<le> i \<Longrightarrow> seq_index xs i = Inr (xs ! nat (int (length xs) + i))"
  by (simp add: seq_index_def)

lemma init_fresh:
  assumes "permutes_input shuffle"
    and "self = init_paths root"
    and "osp_exists w (dataset_dir self)" and "osp_exists w (cam_a_path self)"
    and "osp_exists w (cam_b_path self)" and "\<not> osp_exists w (split_path self)"
    and "length (globs w (osp_join (cam_a_path self) [''*.bmp''])) =
         length (globs w (osp_join (cam_b_path self) [''*.bmp'']))"
    and "cam_a_imgs = sort (globs w (osp_join (cam_a_path self) [''*.bmp'']))"
    and "cam_b_imgs = sort (globs w (osp_join (cam_b_path self) [''*.bmp'']))"
    and "n = length cam_a_imgs"
    and "splits = map (split_of cam_a_imgs cam_b_imgs n (n div 2)) (draws shuffle n 10 (rng w))"
    and "0 \<le> split_id" and "split_id < 10"
  shows "init shuffle retrieve root split_id verbose w =
         Inr (dataset_of (splits ! nat split_id),
              write_json (splits_py splits) (split_path self) (w\<lparr>rng := rng_after shuffle n 10 (rng w)\<rparr>))"
proof -
  let ?w' = "write_json (splits_py splits) (split_path self) (w\<lparr>rng := rng_after shuffle n 10 (rng w)\<rparr>)"
  have dl: "download_data retrieve self w = Inr w" using assms(3) by (simp add: download_data_def)
  have ck: "check_before_run self w = Inr ()" using assms(3,4,5) by (simp only: check_before_run_ok)
  have pr: "prepare_split shuffle self w = Inr ?w'"
    unfolding assms(11) using assms(1,6,7,8,9,10) by (rule prepare_split_creates)
  have rd: "read_json (split_path self) ?w' = Inr (json_load (json_dump (splits_py splits)))"
    by (simp add: read_json_def write_json_def)
  have len: "length splits = 10" by (simp only: assms(11) length_map length_draws)
  have ix: "seq_index splits split_id = Inr (splits ! nat split_id)"
    using assms(12,13) len by (simp add: seq_index_nonneg)
  have lt: "split_id < int (length splits)" using assms(13) len by simp
  have asm: "assemble (json_load (json_dump (splits_py splits))) split_id verbose =
             Inr (dataset_of (splits ! nat split_id))"
    using ix lt by (rule assemble_loaded)
  show ?thesis
    unfolding init_def Let_def assms(2) [symmetric]
    by (simp only: dl ck pr rd asm and_then_Inr)
qed

lemma example_file_present: "files (write_json (PList []) ''data/viper/splits.json'' example_world) (split_path (init_paths ''data'')) = Some (JArr [])"
  by (simp add: init_paths_data write_json_def)

lemma example_world_exists: "osp_exists example_world (dataset_dir (init_paths ''data''))"
  "osp_exists example_world (cam_a_path (init_paths ''data''))"
  "osp_exists example_world (cam_b_path (init_paths ''data''))"
  "\<not> osp_exists example_world (split_path (init_paths ''data''))"
  by (simp_all add: init_paths_data example_world_def osp_exists_def)

lemma example_patterns: "osp_join (cam_a_path (init_paths ''data'')) [''*.bmp''] = ''data/viper/VIPeR/cam_a/*.bmp''"
  "osp_join (cam_b_path (init_paths ''data'')) [''*.bmp''] = ''data/viper/VIPeR/cam_b/*.bmp''"
  by (simp_all add: init_paths_data osp_join_def join2_def)

lemma example_globs: "globs example_world ''data/viper/VIPeR/cam_a/*.bmp'' = [''a2.bmp'', ''a0.bmp'', ''a1.bmp'']"
  "globs example_world ''data/viper/VIPeR/cam_b/*.bmp'' = [''b0.bmp'', ''b2.bmp'', ''b1.bmp'']"
  by (simp_all add: example_world_def)

lemma rng_after_rotate_shuffle: "rng_after rotate_shuffle n 10 g = g + 10"
  by (simp add: eval_nat_numeral rotate_shuffle_def)

lemma example_fresh:
  assumes "cam_a_imgs = sort (globs example_world (osp_join (cam_a_path (init_paths ''data'')) [''*.bmp'']))"
    and "cam_b_imgs = sort (globs example_world (osp_join (cam_b_path (init_paths ''data'')) [''*.bmp'']))"
    and "n = length cam_a_imgs"
    and "splits = map (split_of cam_a_imgs cam_b_imgs n (n div 2)) (draws rotate_shuffle n 10 (rng example_world))"
    and "0 \<le> split_id" and "split_id < 10"
  shows "init rotate_shuffle retrieve ''data'' split_id verbose example_world =
         Inr (dataset_of (splits ! nat split_id),
              write_json (splits_py splits) (split_path (init_paths ''data''))
                (example_world\<lparr>rng := rng_after rotate_shuffle n 10 (rng example_world)\<rparr>))"
proof -
  have l: "length (globs example_world (osp_join (cam_a_path (init_paths ''data'')) [''*.bmp''])) =
           length (globs example_world (osp_join (cam_b_path (init_paths ''data'')) [''*.bmp'']))"
    by (simp only: example_patterns example_globs list.size)
  show ?thesis
    using permutes_rotate_shuffle refl example_world_exists l assms by (rule init_fresh)
qed

lemma assemble_exceeds:
  assumes "int (length ss) \<le> split_id"
  shows "assemble (json_load (json_dump (splits_py ss))) split_id verbose =
         Inl (SplitIdError split_id (int (length ss) - 1))"
  unfolding load_dump_splits assemble_def using assms by simp

lemma assemble_below:
  assumes "split_id < - int (length ss)"
  shows "assemble (json_load (json_dump (splits_py ss))) split_id verbose = Inl IndexError"
proof -
  have "seq_index (map split_loaded ss) split_id = Inl IndexError"
    using assms by (simp add: seq_index_def)
  moreover have "\<not> int (length ss) \<le> split_id" using assms by simp
  ultimately show ?thesis unfolding load_dump_splits assemble_def by simp
qed

lemma img_py_shape: "\<exists>path pid camid. img_py r = PTuple [PStr path, PInt pid, PInt camid]"
  by (cases r) (simp add: img_py_def)

section \<open>The split builder\<close>

text \<open>
  Claim C1. From camera lists of equal length \<open>num_pids\<close> and a shuffle that permutes, the
  builder returns, and every split it returns comes from a list of train indices and a list
  of test indices that are disjoint, cover exactly \<open>{0..<num_pids}\<close> and hold no index
  twice; each index of the train list gives two records of \<open>train\<close> (camera 0, then
  camera 1) and none of the test records, and the other way round.
\<close>

theorem split_indices_partition:
  assumes "permutes_input shuffle" and "length cam_a_imgs = length cam_b_imgs"
  shows "\<exists>splits g'.
           create_splits shuffle cam_a_imgs cam_b_imgs g = Inr (splits, g') \<and>
           (\<forall>s \<in> set splits. \<exists>train_idxs test_idxs.
              set train_idxs \<inter> set test_idxs = {} \<and>
              set train_idxs \<union> set test_idxs = {0..<length cam_a_imgs} \<and>
              distinct (train_idxs @ test_idxs) \<and>
              train s = concat (map (\<lambda>(pid, idx). [(cam_a_imgs ! idx, pid, 0), (cam_b_imgs ! idx, pid, 1)])
                                 (enumerate 0 train_idxs)) \<and>
              query s = concat (map (\<lambda>(pid, idx). [(cam_a_imgs ! idx, pid, 0), (cam_b_imgs ! idx, pid, 1)])
                                 (enumerate 0 test_idxs)) \<and>
              length (train s) = 2 * length train_idxs \<and>
              length (query s) = 2 * length test_idxs)"
proof -
  let ?n = "length cam_a_imgs"
  let ?orders = "draws shuffle ?n 10 g"
  let ?splits = "map (split_of cam_a_imgs cam_b_imgs ?n (?n div 2)) ?orders"
  have run: "create_splits shuffle cam_a_imgs cam_b_imgs g = Inr (?splits, rng_after shuffle ?n 10 g)"
    using assms by (rule create_splits_closed)
  have "\<exists>train_idxs test_idxs.
              set train_idxs \<inter> set test_idxs = {} \<and>
              set train_idxs \<union> set test_idxs = {0..<?n} \<and>
              distinct (train_idxs @ test_idxs) \<and>
              train s = concat (map (\<lambda>(pid, idx). [(cam_a_imgs ! idx, pid, 0), (cam_b_imgs ! idx, pid, 1)])
                                 (enumerate 0 train_idxs)) \<and>
              query s = concat (map (\<lambda>(pid, idx). [(cam_a_imgs ! idx, pid, 0), (cam_b_imgs ! idx, pid, 1)])
                                 (enumerate 0 test_idxs)) \<and>
              length (train s) = 2 * length train_idxs \<and>
              length (query s) = 2 * length test_idxs"
    if "s \<in> set ?splits" for s
  proof -
    from that obtain order where o: "order \<in> set ?orders"
      and s: "s = split_of cam_a_imgs cam_b_imgs ?n (?n div 2) order"
      by (auto simp only: set_map)
    have "mset order = mset [0..<?n]" using assms(1) o by (rule draws_perm)
    then show ?thesis unfolding s by (rule split_of_partition)
  qed
  with run show ?thesis by blast
qed

theorem split_indices_partition_witness:
  "\<exists>splits g'.
     create_splits rotate_shuffle [''a0'', ''a1'', ''a2''] [''b0'', ''b1'', ''b2''] 0 = Inr (splits, g') \<and>
     (\<forall>s \<in> set splits. \<exists>train_idxs test_idxs.
        set train_idxs \<inter> set test_idxs = {} \<and>
        set train_idxs \<union> set test_idxs = {0..<length [''a0'', ''a1'', ''a2'']} \<and>
        distinct (train_idxs @ test_idxs) \<and>
        train s = concat (map (\<lambda>(pid, idx). [([''a0'', ''a1'', ''a2''] ! idx, pid, 0),
                                               ([''b0'', ''b1'', ''b2''] ! idx, pid, 1)])
                           (enumerate 0 train_idxs)) \<and>
        query s = concat (map (\<lambda>(pid, idx). [([''a0'', ''a1'', ''a2''] ! idx, pid, 0),
                                               ([''b0'', ''b1'', ''b2''] ! idx, pid, 1)])
                           (enumerate 0 test_idxs)) \<and>
        length (train s) = 2 * length train_idxs \<and>
        length (query s) = 2 * length test_idxs)"
  by (rule split_indices_partition [OF permutes_rotate_shuffle]) simp

text \<open>
  Claim C2. Every split that the builder returns records
  \<open>num_train_pids = num_pids // 2\<close> and
  \<open>num_query_pids = num_gallery_pids = num_pids - num_train_pids\<close>, as natural numbers and
  as integers (the subtraction never truncates).
\<close>

theorem split_counts:
  assumes "create_splits shuffle cam_a_imgs cam_b_imgs g = Inr (splits, g')" and "s \<in> set splits"
  shows "num_train_pids s = length cam_a_imgs div 2 \<and>
         num_query_pids s = length cam_a_imgs - num_train_pids s \<and>
         num_gallery_pids s = length cam_a_imgs - num_train_pids s \<and>
         int (num_query_pids s) = int (length cam_a_imgs) - int (num_train_pids s)"
proof -
  let ?n = "length cam_a_imgs"
  have "num_train_pids s = ?n div 2 \<and> num_query_pids s = ?n - ?n div 2 \<and>
        num_gallery_pids s = ?n - ?n div 2"
    using _ assms
  proof (rule create_splits_invariant)
    fix order x
    assume "make_split cam_a_imgs cam_b_imgs ?n (?n div 2) order = Inr x"
    then show "num_train_pids x = ?n div 2 \<and> num_query_pids x = ?n - ?n div 2 \<and>
        num_gallery_pids x = ?n - ?n div 2"
      by (simp only: make_split_fields simp_thms)
  qed
  then show ?thesis by simp
qed

theorem split_counts_witness:
  "\<exists>splits g'.
     create_splits rotate_shuffle [''a0'', ''a1'', ''a2''] [''b0'', ''b1'', ''b2''] 0 = Inr (splits, g') \<and>
     length splits = 10 \<and>
     (\<forall>s \<in> set splits. num_train_pids s = 1 \<and> num_query_pids s = 2 \<and> num_gallery_pids s = 2)"
proof -
  let ?a = "[''a0'', ''a1'', ''a2'']" and ?b = "[''b0'', ''b1'', ''b2'']"
  let ?splits = "map (split_of ?a ?b (length ?a) (length ?a div 2)) (draws rotate_shuffle (length ?a) 10 0)"
  have run: "create_splits rotate_shuffle ?a ?b 0 = Inr (?splits, rng_after rotate_shuffle (length ?a) 10 0)"
    by (rule create_splits_closed [OF permutes_rotate_shuffle]) simp
  have "\<forall>s \<in> set ?splits. num_train_pids s = 1 \<and> num_query_pids s = 2 \<and> num_gallery_pids s = 2"
  proof
    fix s assume "s \<in> set ?splits"
    with split_counts [OF run, of s] show "num_train_pids s = 1 \<and> num_query_pids s = 2 \<and> num_gallery_pids s = 2"
      by simp
  qed
  moreover have "length ?splits = 10" by (simp only: length_map length_draws)
  ultimately show ?thesis using run by blast
qed

text \<open>
  Claim C3. In trial \<open>t\<close> the train records are those of the first \<open>num_pids // 2\<close>
  entries of the permutation drawn in that trial, in its order, labelled 0, 1, 2, ..., the
  record of camera A with camera id 0 immediately followed by that of camera B with camera
  id 1; the test records are the same over the rest of the permutation, labelled from 0.
\<close>

theorem records_follow_permutation:
  assumes "permutes_input shuffle" and "length cam_a_imgs = length cam_b_imgs" and "t < 10"
    and "order = draws shuffle (length cam_a_imgs) 10 g ! t"
    and "num_pids = length cam_a_imgs"
  shows "\<exists>splits g'.
           create_splits shuffle cam_a_imgs cam_b_imgs g = Inr (splits, g') \<and>
           length splits = 10 \<and>
           mset order = mset [0..<num_pids] \<and>
           train (splits ! t) =
             concat (map (\<lambda>new_label. [(cam_a_imgs ! (order ! new_label), new_label, 0),
                                         (cam_b_imgs ! (order ! new_label), new_label, 1)])
                      [0..<num_pids div 2]) \<and>
           query (splits ! t) =
             concat (map (\<lambda>new_label. [(cam_a_imgs ! (order ! (num_pids div 2 + new_label)), new_label, 0),
                                         (cam_b_imgs ! (order ! (num_pids div 2 + new_label)), new_label, 1)])
                      [0..<num_pids - num_pids div 2])"
proof -
  let ?orders = "draws shuffle num_pids 10 g"
  let ?splits = "map (split_of cam_a_imgs cam_b_imgs num_pids (num_pids div 2)) ?orders"
  have run: "create_splits shuffle cam_a_imgs cam_b_imgs g = Inr (?splits, rng_after shuffle num_pids 10 g)"
    unfolding assms(5) using assms(1,2) by (rule create_splits_closed)
  have len: "length ?splits = 10" by (simp only: length_map length_draws)
  have t: "t < length ?orders" using assms(3) by (simp only: length_draws)
  have o: "order = ?orders ! t" by (simp only: assms(4,5))
  then have "order \<in> set ?orders" using t by (simp only: nth_mem)
  with assms(1) have p: "mset order = mset [0..<num_pids]" by (rule draws_perm)
  have at: "?splits ! t = split_of cam_a_imgs cam_b_imgs num_pids (num_pids div 2) order"
    using t by (simp only: nth_map o)
  have l: "length order = num_pids" by (rule perm_upt_facts(3) [OF p])
  have h: "num_pids div 2 \<le> num_pids" by simp
  note pos = split_of_by_position [OF l h, of cam_a_imgs cam_b_imgs]
  from run len p pos show ?thesis unfolding at [symmetric] by blast
qed

theorem records_follow_permutation_witness:
  "\<exists>splits g'.
     create_splits rotate_shuffle [''a0'', ''a1'', ''a2''] [''b0'', ''b1'', ''b2''] 0 = Inr (splits, g') \<and>
     length splits = 10 \<and>
     train (splits ! 1) = [(''a2'', 0, 0), (''b2'', 0, 1)] \<and>
     query (splits ! 1) = [(''a0'', 0, 0), (''b0'', 0, 1), (''a1'', 1, 0), (''b1'', 1, 1)]"
proof -
  have o: "[2, 0, 1] = draws rotate_shuffle (length [''a0'', ''a1'', ''a2'']) 10 0 ! 1"
    by (simp add: eval_nat_numeral rotate_shuffle_def upt_rec)
  from records_follow_permutation [OF permutes_rotate_shuffle _ _ o refl,
      of "[''b0'', ''b1'', ''b2'']"]
  show ?thesis by (simp add: upt_rec)
qed

text \<open>
  Claim C8. The builder fails on its length assertion when the two camera lists have
  different lengths, and returns splits when they have the same length.
\<close>

theorem length_mismatch:
  assumes "permutes_input shuffle"
  shows "(length cam_a_imgs \<noteq> length cam_b_imgs \<longrightarrow>
            create_splits shuffle cam_a_imgs cam_b_imgs g = Inl (AssertionError [])) \<and>
         (length cam_a_imgs = length cam_b_imgs \<longrightarrow>
            (\<exists>r. create_splits shuffle cam_a_imgs cam_b_imgs g = Inr r))"
proof (intro conjI impI)
  assume "length cam_a_imgs \<noteq> length cam_b_imgs"
  then show "create_splits shuffle cam_a_imgs cam_b_imgs g = Inl (AssertionError [])"
    by (simp add: create_splits_def)
next
  assume "length cam_a_imgs = length cam_b_imgs"
  with assms show "\<exists>r. create_splits shuffle cam_a_imgs cam_b_imgs g = Inr r"
    by (simp only: create_splits_closed) blast
qed

theorem length_mismatch_witness:
  "create_splits rotate_shuffle [''a0'', ''a1'', ''a2'', ''a3'', ''a4'']
       [''b0'', ''b1'', ''b2'', ''b3'', ''b4'', ''b5''] 0 = Inl (AssertionError []) \<and>
   (\<exists>r. create_splits rotate_shuffle [''a0'', ''a1'', ''a2'', ''a3'', ''a4'']
       [''b0'', ''b1'', ''b2'', ''b3'', ''b4''] 0 = Inr r)"
  using length_mismatch [OF permutes_rotate_shuffle,
      of "[''a0'', ''a1'', ''a2'', ''a3'', ''a4'']" "[''b0'', ''b1'', ''b2'', ''b3'', ''b4'', ''b5'']" 0]
    length_mismatch [OF permutes_rotate_shuffle,
      of "[''a0'', ''a1'', ''a2'', ''a3'', ''a4'']" "[''b0'', ''b1'', ''b2'', ''b3'', ''b4'']" 0]
  by simp

text \<open>
  Claim C9. In every split that the builder returns, \<open>query\<close> and \<open>gallery\<close> are the same
  sequence.
\<close>

theorem query_gallery_identical:
  assumes "create_splits shuffle cam_a_imgs cam_b_imgs g = Inr (splits, g')" and "s \<in> set splits"
  shows "query s = gallery s"
  using _ assms
proof (rule create_splits_invariant)
  fix order x
  assume "make_split cam_a_imgs cam_b_imgs (length cam_a_imgs) (length cam_a_imgs div 2) order = Inr x"
  then show "query x = gallery x" by (rule make_split_fields(4))
qed

theorem query_gallery_identical_witness:
  "\<exists>splits g'.
     create_splits rotate_shuffle [''a0'', ''a1'', ''a2''] [''b0'', ''b1'', ''b2''] 0 = Inr (splits, g') \<and>
     length splits = 10 \<and>
     (\<forall>s \<in> set splits. query s = gallery s)"
proof -
  let ?a = "[''a0'', ''a1'', ''a2'']" and ?b = "[''b0'', ''b1'', ''b2'']"
  let ?splits = "map (split_of ?a ?b (length ?a) (length ?a div 2)) (draws rotate_shuffle (length ?a) 10 0)"
  have run: "create_splits rotate_shuffle ?a ?b 0 = Inr (?splits, rng_after rotate_shuffle (length ?a) 10 0)"
    by (rule create_splits_closed [OF permutes_rotate_shuffle]) simp
  have "\<forall>s \<in> set ?splits. query s = gallery s"
  proof
    fix s assume "s \<in> set ?splits"
    with run show "query s = gallery s" by (rule query_gallery_identical)
  qed
  moreover have "length ?splits = 10" by (simp only: length_map length_draws)
  ultimately show ?thesis using run by blast
qed


section \<open>The split store\<close>

text \<open>
  Claim C5. If a split file exists at the store path, \<open>_prepare_split\<close> leaves the whole
  machine as it is (the file is not rewritten and the random generator is not advanced, so
  the builder has not run) and reading the file gives its content as it is stored. Hence a
  second construction on the machine that a first one leaves behind returns the same
  dataset and leaves the machine unchanged, whatever shuffle it is given.
\<close>

theorem load_or_create_cached:
  "(files w (split_path self) = Some doc \<longrightarrow>
      prepare_split shuffle self w = Inr w \<and>
      read_json (split_path self) w = Inr (json_load doc)) \<and>
   (init shuffle retrieve root split_id verbose w = Inr (d, w') \<longrightarrow>
      prepare_split shuffle' (init_paths root) w' = Inr w' \<and>
      init shuffle' retrieve' root split_id verbose w' = Inr (d, w'))"
proof (intro conjI impI)
  assume f: "files w (split_path self) = Some doc"
  then have "osp_exists w (split_path self)" by (simp add: osp_exists_def)
  then show "prepare_split shuffle self w = Inr w" by (rule prepare_split_existing)
  from f show "read_json (split_path self) w = Inr (json_load doc)" by (simp add: read_json_def)
next
  assume i: "init shuffle retrieve root split_id verbose w = Inr (d, w')"
  then show "init shuffle' retrieve' root split_id verbose w' = Inr (d, w')" by (rule init_again)
  from i obtain splits where "read_json (split_path (init_paths root)) w' = Inr splits"
    unfolding init_def Let_def and_then_eq_Inr by blast
  then have "files w' (split_path (init_paths root)) \<noteq> None" by (auto simp only: read_json_ok)
  then have "osp_exists w' (split_path (init_paths root))" by (simp add: osp_exists_def)
  then show "prepare_split shuffle' (init_paths root) w' = Inr w'" by (rule prepare_split_existing)
qed

theorem load_or_create_cached_witness:
  "(prepare_split rotate_shuffle (init_paths ''data'')
       (write_json (PList []) ''data/viper/splits.json'' example_world) =
      Inr (write_json (PList []) ''data/viper/splits.json'' example_world) \<and>
    read_json (split_path (init_paths ''data''))
       (write_json (PList []) ''data/viper/splits.json'' example_world) = Inr (PList [])) \<and>
   (\<exists>d w'. init rotate_shuffle no_network ''data'' 3 True example_world = Inr (d, w') \<and>
      rng w' = 10 \<and>
      prepare_split (\<lambda>g xs. (rev xs, g)) (init_paths ''data'') w' = Inr w' \<and>
      init (\<lambda>g xs. (rev xs, g)) no_network ''data'' 3 True w' = Inr (d, w'))"
proof
  let ?w = "write_json (PList []) ''data/viper/splits.json'' example_world"
  from load_or_create_cached [THEN conjunct1, rule_format, OF example_file_present, of rotate_shuffle]
  show "prepare_split rotate_shuffle (init_paths ''data'') ?w = Inr ?w \<and>
        read_json (split_path (init_paths ''data'')) ?w = Inr (PList [])"
    by simp
next
  let ?self = "init_paths ''data''"
  define cam_a_imgs where "cam_a_imgs = sort (globs example_world (osp_join (cam_a_path ?self) [''*.bmp'']))"
  define cam_b_imgs where "cam_b_imgs = sort (globs example_world (osp_join (cam_b_path ?self) [''*.bmp'']))"
  define n where "n = length cam_a_imgs"
  define splits where "splits = map (split_of cam_a_imgs cam_b_imgs n (n div 2))
                   (draws rotate_shuffle n 10 (rng example_world))"
  define w' where "w' = write_json (splits_py splits) (split_path ?self)
               (example_world\<lparr>rng := rng_after rotate_shuffle n 10 (rng example_world)\<rparr>)"
  have first: "init rotate_shuffle no_network ''data'' 3 True example_world =
               Inr (dataset_of (splits ! nat 3), w')"
    unfolding w'_def using cam_a_imgs_def cam_b_imgs_def n_def splits_def
    by (rule example_fresh) simp_all
  have r: "rng w' = 10"
    by (simp add: w'_def write_json_def rng_after_rotate_shuffle example_world_def)
  note again = load_or_create_cached [THEN conjunct2, rule_format, OF first,
      where shuffle' = "\<lambda>g xs. (rev xs, g)" and retrieve' = no_network]
  from first r again
  show "\<exists>d w'. init rotate_shuffle no_network ''data'' 3 True example_world = Inr (d, w') \<and>
      rng w' = 10 \<and>
      prepare_split (\<lambda>g xs. (rev xs, g)) (init_paths ''data'') w' = Inr w' \<and>
      init (\<lambda>g xs. (rev xs, g)) no_network ''data'' 3 True w' = Inr (d, w')"
    by blast
qed

text \<open>
  Claim C6. Reading back the file written from a split set gives a document of the same
  length from which every split is assembled with its records equal, in order, to the
  tuples of the original, and with its three counts equal to the original's; every record
  is a tuple of three entries (path, identity, camera).
\<close>

theorem split_file_roundtrip:
  assumes "i < length splits"
  shows "read_json fpath (write_json (splits_py splits) fpath w) =
           Inr (json_load (json_dump (splits_py splits))) \<and>
         py_len (json_load (json_dump (splits_py splits))) = Inr (length splits) \<and>
         assemble (json_load (json_dump (splits_py splits))) (int i) verbose =
           Inr (dataset_of (splits ! i)) \<and>
         py_getitem_str (split_py (splits ! i)) ''train'' =
           Inr (PList (self_train (dataset_of (splits ! i)))) \<and>
         py_getitem_str (split_py (splits ! i)) ''query'' =
           Inr (PList (self_query (dataset_of (splits ! i)))) \<and>
         py_getitem_str (split_py (splits ! i)) ''gallery'' =
           Inr (PList (self_gallery (dataset_of (splits ! i)))) \<and>
         py_getitem_str (split_py (splits ! i)) ''num_train_pids'' =
           Inr (self_num_train_pids (dataset_of (splits ! i))) \<and>
         py_getitem_str (split_py (splits ! i)) ''num_query_pids'' =
           Inr (self_num_query_pids (dataset_of (splits ! i))) \<and>
         py_getitem_str (split_py (splits ! i)) ''num_gallery_pids'' =
           Inr (self_num_gallery_pids (dataset_of (splits ! i))) \<and>
         (\<forall>r \<in> set (self_train (dataset_of (splits ! i)) @ self_query (dataset_of (splits ! i)) @
                      self_gallery (dataset_of (splits ! i))).
            \<exists>path pid camid. r = PTuple [PStr path, PInt pid, PInt camid])"
proof -
  let ?s = "splits ! i"
  have 1: "read_json fpath (write_json (splits_py splits) fpath w) =
           Inr (json_load (json_dump (splits_py splits)))"
    by (simp add: read_json_def write_json_def)
  have 2: "py_len (json_load (json_dump (splits_py splits))) = Inr (length splits)"
    by (simp add: load_dump_splits)
  have ix: "seq_index splits (int i) = Inr ?s" using assms by (simp add: seq_index_nonneg)
  have lt: "int i < int (length splits)" using assms by simp
  have 3: "assemble (json_load (json_dump (splits_py splits))) (int i) verbose = Inr (dataset_of ?s)"
    using ix lt by (rule assemble_loaded)
  have 4: "py_getitem_str (split_py ?s) ''train'' = Inr (PList (self_train (dataset_of ?s)))"
    by (simp add: split_py_def dataset_of_def)
  have 5: "py_getitem_str (split_py ?s) ''query'' = Inr (PList (self_query (dataset_of ?s)))"
    by (simp add: split_py_def dataset_of_def)
  have 6: "py_getitem_str (split_py ?s) ''gallery'' = Inr (PList (self_gallery (dataset_of ?s)))"
    by (simp add: split_py_def dataset_of_def)
  have 7: "py_getitem_str (split_py ?s) ''num_train_pids'' = Inr (self_num_train_pids (dataset_of ?s))"
    by (simp add: split_py_def dataset_of_def)
  have 8: "py_getitem_str (split_py ?s) ''num_query_pids'' = Inr (self_num_query_pids (dataset_of ?s))"
    by (simp add: split_py_def dataset_of_def)
  have 9: "py_getitem_str (split_py ?s) ''num_gallery_pids'' = Inr (self_num_gallery_pids (dataset_of ?s))"
    by (simp add: split_py_def dataset_of_def)
  have 10: "\<forall>r \<in> set (self_train (dataset_of ?s) @ self_query (dataset_of ?s) @ self_gallery (dataset_of ?s)).
            \<exists>path pid camid. r = PTuple [PStr path, PInt pid, PInt camid]"
  proof
    fix r
    assume "r \<in> set (self_train (dataset_of ?s) @ self_query (dataset_of ?s) @ self_gallery (dataset_of ?s))"
    then obtain x where "r = img_py x" by (auto simp: dataset_of_def)
    then show "\<exists>path pid camid. r = PTuple [PStr path, PInt pid, PInt camid]"
      using img_py_shape by simp
  qed
  from 1 2 3 4 5 6 7 8 9 10 show ?thesis by (intro conjI)
qed

theorem split_file_roundtrip_witness:
  "read_json ''splits.json'' (write_json (splits_py [example_split 1]) ''splits.json'' example_world) =
     Inr (json_load (json_dump (splits_py [example_split 1]))) \<and>
   py_len (json_load (json_dump (splits_py [example_split 1]))) = Inr 1 \<and>
   assemble (json_load (json_dump (splits_py [example_split 1]))) 0 True =
     Inr \<lparr>self_train = [PTuple [PStr ''a0.bmp'', PInt 0, PInt 0], PTuple [PStr ''b0.bmp'', PInt 0, PInt 1]],
          self_query = [PTuple [PStr ''a1.bmp'', PInt 0, PInt 0], PTuple [PStr ''b1.bmp'', PInt 0, PInt 1]],
          self_gallery = [PTuple [PStr ''a1.bmp'', PInt 0, PInt 0], PTuple [PStr ''b1.bmp'', PInt 0, PInt 1]],
          self_num_train_pids = PInt 1, self_num_query_pids = PInt 1, self_num_gallery_pids = PInt 1\<rparr>"
  using split_file_roundtrip [of 0 "[example_split 1]" "''splits.json''" example_world True]
  by (simp add: dataset_of_def example_split_def img_py_def)

text \<open>
  Claim C7. Where no split file exists and the two camera listings have the same length,
  \<open>_prepare_split\<close> returns, the builder has produced exactly 10 splits, and these are
  what the split file now holds: reading it back gives a sequence of length 10.
\<close>

theorem ten_splits_persisted:
  assumes "permutes_input shuffle" and "\<not> osp_exists w (split_path self)"
    and "length (globs w (osp_join (cam_a_path self) [''*.bmp''])) =
         length (globs w (osp_join (cam_b_path self) [''*.bmp'']))"
  shows "\<exists>splits w'.
           prepare_split shuffle self w = Inr w' \<and>
           create_splits shuffle (sort (globs w (osp_join (cam_a_path self) [''*.bmp''])))
             (sort (globs w (osp_join (cam_b_path self) [''*.bmp'']))) (rng w) = Inr (splits, rng w') \<and>
           length splits = 10 \<and>
           files w' (split_path self) = Some (json_dump (splits_py splits)) \<and>
           and_then (read_json (split_path self) w') py_len = Inr 10"
proof -
  define cam_a_imgs where "cam_a_imgs = sort (globs w (osp_join (cam_a_path self) [''*.bmp'']))"
  define cam_b_imgs where "cam_b_imgs = sort (globs w (osp_join (cam_b_path self) [''*.bmp'']))"
  define n where "n = length cam_a_imgs"
  define splits where "splits = map (split_of cam_a_imgs cam_b_imgs n (n div 2)) (draws shuffle n 10 (rng w))"
  define w' where "w' = write_json (splits_py splits) (split_path self)
                          (w\<lparr>rng := rng_after shuffle n 10 (rng w)\<rparr>)"
  have pr: "prepare_split shuffle self w = Inr w'"
    unfolding w'_def splits_def using assms cam_a_imgs_def cam_b_imgs_def n_def
    by (rule prepare_split_creates)
  have "length cam_a_imgs = length cam_b_imgs"
    using assms(3) by (simp add: cam_a_imgs_def cam_b_imgs_def)
  with assms(1) have "create_splits shuffle cam_a_imgs cam_b_imgs (rng w) =
      Inr (map (split_of cam_a_imgs cam_b_imgs n (n div 2)) (draws shuffle n 10 (rng w)),
           rng_after shuffle n 10 (rng w))"
    unfolding n_def by (rule create_splits_closed)
  moreover have "rng w' = rng_after shuffle n 10 (rng w)" by (simp add: w'_def write_json_def)
  ultimately have cr: "create_splits shuffle cam_a_imgs cam_b_imgs (rng w) = Inr (splits, rng w')"
    by (simp only: splits_def)
  have len: "length splits = 10" by (simp only: splits_def length_map length_draws)
  have fl: "files w' (split_path self) = Some (json_dump (splits_py splits))"
    by (simp add: w'_def write_json_def)
  have "read_json (split_path self) w' = Inr (PList (map split_loaded splits))"
    by (simp add: read_json_def fl load_dump_splits)
  then have rd: "and_then (read_json (split_path self) w') py_len = Inr 10"
    by (simp add: len)
  from pr cr len fl rd show ?thesis
    unfolding cam_a_imgs_def cam_b_imgs_def by blast
qed

theorem ten_splits_persisted_witness:
  "\<exists>splits w'.
     prepare_split rotate_shuffle (init_paths ''data'') example_world = Inr w' \<and>
     create_splits rotate_shuffle
       (sort (globs example_world (osp_join (cam_a_path (init_paths ''data'')) [''*.bmp''])))
       (sort (globs example_world (osp_join (cam_b_path (init_paths ''data'')) [''*.bmp''])))
       (rng example_world) = Inr (splits, rng w') \<and>
     length splits = 10 \<and>
     files w' (split_path (init_paths ''data'')) = Some (json_dump (splits_py splits)) \<and>
     and_then (read_json (split_path (init_paths ''data'')) w') py_len = Inr 10"
proof -
  have l: "length (globs example_world (osp_join (cam_a_path (init_paths ''data'')) [''*.bmp''])) =
           length (globs example_world (osp_join (cam_b_path (init_paths ''data'')) [''*.bmp'']))"
    by (simp only: example_patterns example_globs list.size)
  show ?thesis
    using permutes_rotate_shuffle example_world_exists(4) l by (rule ten_splits_persisted)
qed


section \<open>Dataset assembly\<close>

text \<open>
  Claim C4 says that assembly fails with the range error exactly when \<open>split_id\<close> is
  outside \<open>[0, n)\<close>. The check of line 48 only looks at the upper end. On the ten splits built
  from three images per camera: \<open>split_id = 10\<close> raises the range error naming 0 to 9, as
  claimed; \<open>split_id = -1\<close> raises nothing and exposes the last split; \<open>split_id = -11\<close>
  raises \<open>IndexError\<close> from the indexing of line 50, not the range error.
\<close>

theorem split_id_check_misses_negatives:
  "\<exists>splits g'.
     create_splits rotate_shuffle [''a0.bmp'', ''a1.bmp'', ''a2.bmp''] [''b0.bmp'', ''b1.bmp'', ''b2.bmp''] 0 =
       Inr (splits, g') \<and>
     length splits = 10 \<and>
     assemble (json_load (json_dump (splits_py splits))) 10 True = Inl (SplitIdError 10 9) \<and>
     assemble (json_load (json_dump (splits_py splits))) (- 1) True =
       Inr \<lparr>self_train = [PTuple [PStr ''a1.bmp'', PInt 0, PInt 0], PTuple [PStr ''b1.bmp'', PInt 0, PInt 1]],
            self_query = [PTuple [PStr ''a2.bmp'', PInt 0, PInt 0], PTuple [PStr ''b2.bmp'', PInt 0, PInt 1],
                          PTuple [PStr ''a0.bmp'', PInt 1, PInt 0], PTuple [PStr ''b0.bmp'', PInt 1, PInt 1]],
            self_gallery = [PTuple [PStr ''a2.bmp'', PInt 0, PInt 0], PTuple [PStr ''b2.bmp'', PInt 0, PInt 1],
                          PTuple [PStr ''a0.bmp'', PInt 1, PInt 0], PTuple [PStr ''b0.bmp'', PInt 1, PInt 1]],
            self_num_train_pids = PInt 1, self_num_query_pids = PInt 2, self_num_gallery_pids = PInt 2\<rparr> \<and>
     assemble (json_load (json_dump (splits_py splits))) (- 11) True = Inl IndexError"
proof -
  let ?a = "[''a0.bmp'', ''a1.bmp'', ''a2.bmp'']" and ?b = "[''b0.bmp'', ''b1.bmp'', ''b2.bmp'']"
  define splits where "splits = map (split_of ?a ?b (length ?a) (length ?a div 2))
                                  (draws rotate_shuffle (length ?a) 10 0)"
  have run: "create_splits rotate_shuffle ?a ?b 0 = Inr (splits, rng_after rotate_shuffle (length ?a) 10 0)"
    unfolding splits_def by (rule create_splits_closed [OF permutes_rotate_shuffle]) simp
  have len: "length splits = 10" by (simp only: splits_def length_map length_draws)
  have hi: "assemble (json_load (json_dump (splits_py splits))) 10 True = Inl (SplitIdError 10 9)"
    using assemble_exceeds [of splits 10 True] len by simp
  have lo: "assemble (json_load (json_dump (splits_py splits))) (- 11) True = Inl IndexError"
    using assemble_below [of "- 11" splits True] len by simp
  have "seq_index splits (- 1) = Inr (splits ! nat (int (length splits) + - 1))"
    using len by (intro seq_index_negative) simp_all
  then have ix: "seq_index splits (- 1) = Inr (splits ! 9)" using len by simp
  have as9: "assemble (json_load (json_dump (splits_py splits))) (- 1) True = Inr (dataset_of (splits ! 9))"
    using ix by (rule assemble_loaded) (simp add: len)
  have l3: "length ?a = 3" by simp
  have d3: "(3::nat) div 2 = 1" by simp
  have sp: "splits = map (split_of ?a ?b 3 1) (draws rotate_shuffle 3 10 0)"
    by (simp only: splits_def l3 d3)
  have dr: "draws rotate_shuffle 3 10 0 ! 9 = [1, 2, 0]"
    by (simp add: eval_nat_numeral rotate_shuffle_def upt_rec)
  have "splits ! 9 = split_of ?a ?b 3 1 (draws rotate_shuffle 3 10 0 ! 9)"
    unfolding sp by (rule nth_map) simp
  then have s9: "splits ! 9 = split_of ?a ?b 3 1 [1, 2, 0]"
    by (simp only: dr)
  from as9 s9 have mid: "assemble (json_load (json_dump (splits_py splits))) (- 1) True =
      Inr (dataset_of (split_of ?a ?b 3 1 [1, 2, 0]))" by simp
  have "dataset_of (split_of ?a ?b 3 1 [1, 2, 0]) =
       \<lparr>self_train = [PTuple [PStr ''a1.bmp'', PInt 0, PInt 0], PTuple [PStr ''b1.bmp'', PInt 0, PInt 1]],
            self_query = [PTuple [PStr ''a2.bmp'', PInt 0, PInt 0], PTuple [PStr ''b2.bmp'', PInt 0, PInt 1],
                          PTuple [PStr ''a0.bmp'', PInt 1, PInt 0], PTuple [PStr ''b0.bmp'', PInt 1, PInt 1]],
            self_gallery = [PTuple [PStr ''a2.bmp'', PInt 0, PInt 0], PTuple [PStr ''b2.bmp'', PInt 0, PInt 1],
                          PTuple [PStr ''a0.bmp'', PInt 1, PInt 0], PTuple [PStr ''b0.bmp'', PInt 1, PInt 1]],
            self_num_train_pids = PInt 1, self_num_query_pids = PInt 2, self_num_gallery_pids = PInt 2\<rparr>"
    by (simp add: dataset_of_def split_of_def img_py_def)
  with mid have neg: "assemble (json_load (json_dump (splits_py splits))) (- 1) True =
       Inr \<lparr>self_train = [PTuple [PStr ''a1.bmp'', PInt 0, PInt 0], PTuple [PStr ''b1.bmp'', PInt 0, PInt 1]],
            self_query = [PTuple [PStr ''a2.bmp'', PInt 0, PInt 0], PTuple [PStr ''b2.bmp'', PInt 0, PInt 1],
                          PTuple [PStr ''a0.bmp'', PInt 1, PInt 0], PTuple [PStr ''b0.bmp'', PInt 1, PInt 1]],
            self_gallery = [PTuple [PStr ''a2.bmp'', PInt 0, PInt 0], PTuple [PStr ''b2.bmp'', PInt 0, PInt 1],
                          PTuple [PStr ''a0.bmp'', PInt 1, PInt 0], PTuple [PStr ''b0.bmp'', PInt 1, PInt 1]],
            self_num_train_pids = PInt 1, self_num_query_pids = PInt 2, self_num_gallery_pids = PInt 2\<rparr>"
    by (simp only:)
  from run len hi neg lo show ?thesis by blast
qed

text \<open>
  Claim C10. On a split set of length 10 read back from its file, a \<open>split_id\<close> from -10
  to -1 passes the bounds check, and the split at position \<open>10 + split_id\<close> is exposed as
  the dataset's train, query, gallery and counts.
\<close>

theorem negative_split_id_selected:
  assumes "length splits = 10" and "- 10 \<le> split_id" and "split_id \<le> - 1"
  shows "py_len (json_load (json_dump (splits_py splits))) = Inr 10 \<and>
         \<not> split_id \<ge> 10 \<and>
         assemble (json_load (json_dump (splits_py splits))) split_id verbose =
           Inr (dataset_of (splits ! nat (10 + split_id))) \<and>
         self_train (dataset_of (splits ! nat (10 + split_id))) =
           map img_py (train (splits ! nat (10 + split_id))) \<and>
         self_query (dataset_of (splits ! nat (10 + split_id))) =
           map img_py (query (splits ! nat (10 + split_id))) \<and>
         self_gallery (dataset_of (splits ! nat (10 + split_id))) =
           map img_py (gallery (splits ! nat (10 + split_id))) \<and>
         self_num_train_pids (dataset_of (splits ! nat (10 + split_id))) =
           PInt (int (num_train_pids (splits ! nat (10 + split_id)))) \<and>
         self_num_query_pids (dataset_of (splits ! nat (10 + split_id))) =
           PInt (int (num_query_pids (splits ! nat (10 + split_id)))) \<and>
         self_num_gallery_pids (dataset_of (splits ! nat (10 + split_id))) =
           PInt (int (num_gallery_pids (splits ! nat (10 + split_id))))"
proof -
  have 1: "py_len (json_load (json_dump (splits_py splits))) = Inr 10"
    using assms(1) by (simp add: load_dump_splits)
  have 2: "\<not> split_id \<ge> 10" using assms(3) by simp
  have "seq_index splits split_id = Inr (splits ! nat (int (length splits) + split_id))"
    using assms by (intro seq_index_negative) simp_all
  then have ix: "seq_index splits split_id = Inr (splits ! nat (10 + split_id))"
    using assms(1) by simp
  have lt: "split_id < int (length splits)" using assms(1,3) by simp
  have 3: "assemble (json_load (json_dump (splits_py splits))) split_id verbose =
           Inr (dataset_of (splits ! nat (10 + split_id)))"
    using ix lt by (rule assemble_loaded)
  from 1 2 3 show ?thesis by (simp add: dataset_of_def)
qed

theorem negative_split_id_selected_witness:
  "assemble (json_load (json_dump (splits_py (map example_split [0..<10])))) (- 3) True =
     Inr \<lparr>self_train = [PTuple [PStr ''a0.bmp'', PInt 0, PInt 0], PTuple [PStr ''b0.bmp'', PInt 0, PInt 1]],
          self_query = [PTuple [PStr ''a1.bmp'', PInt 0, PInt 0], PTuple [PStr ''b1.bmp'', PInt 0, PInt 1]],
          self_gallery = [PTuple [PStr ''a1.bmp'', PInt 0, PInt 0], PTuple [PStr ''b1.bmp'', PInt 0, PInt 1]],
          self_num_train_pids = PInt 7, self_num_query_pids = PInt 1, self_num_gallery_pids = PInt 1\<rparr>"
proof -
  have "map example_split [0..<10] ! nat (10 + - 3) = example_split 7" by simp
  with negative_split_id_selected [of "map example_split [0..<10]" "- 3" True]
  show ?thesis by (simp add: dataset_of_def example_split_def img_py_def)
qed

end
